theory Spec2Isabelle
  imports Complex_Main
begin

section \<open>Python values\<close>

text \<open>
  A Python \<open>str\<close> is a sequence of code points. It is modelled as a \<open>string\<close> whose
  \<open>char\<close>s are the code points U+0000 to U+00FF (Latin-1), one \<open>char\<close> per code point;
  every character that the literals and patterns of \<open>ragServer.py\<close> mention lies in that
  range. \<open>code c\<close> is the code point of \<open>c\<close>.
\<close>

datatype error = IndexError | ValueError | ReadError

definition code :: "char \<Rightarrow> nat" where
  "code c = of_char c"

definition isspace :: "char \<Rightarrow> bool" where
  \<comment> \<open>\<open>str.isspace\<close> on one code point: TAB, LF, VT, FF, CR, FS, GS, RS, US, SPACE, NEL, NBSP.\<close>
  "isspace c = (let n = code c in
     (9 \<le> n \<and> n \<le> 13) \<or> (28 \<le> n \<and> n \<le> 32) \<or> n = 133 \<or> n = 160)"

text \<open>
  \<open>text.split()\<close>: runs of whitespace separate the words, and no empty word is produced.
  \<open>split_from w s\<close> scans \<open>s\<close> with the word begun so far in \<open>w\<close>.
\<close>

fun split_from :: "string \<Rightarrow> string \<Rightarrow> string list" where
  "split_from w [] = (if w = [] then [] else [w])"
| "split_from w (c # cs) =
     (if isspace c then (if w = [] then split_from [] cs else w # split_from [] cs)
      else split_from (w @ [c]) cs)"

definition split :: "string \<Rightarrow> string list" where
  "split s = split_from [] s"

text \<open>\<open>sep.join(xs)\<close>.\<close>

fun join :: "string \<Rightarrow> string list \<Rightarrow> string" where
  "join sep [] = []"
| "join sep [x] = x"
| "join sep (x # y # ys) = x @ sep @ join sep (y # ys)"

text \<open>
  \<open>range(start, stop, step)\<close> for a positive step, as the list of the values it yields.
\<close>

function range_step :: "nat \<Rightarrow> nat \<Rightarrow> nat \<Rightarrow> nat list" where
  "range_step i stop step =
     (if 0 < step \<and> i < stop then i # range_step (i + step) stop step else [])"
  by pat_completeness auto
termination
  by (relation "measure (\<lambda>(i, stop, step). stop - i)") auto

declare range_step.simps [simp del]

text \<open>\<open>xs[i:j]\<close> for \<open>0 \<le> i \<le> j\<close>: the slice is cut at the end of the list.\<close>

definition slice :: "'a list \<Rightarrow> nat \<Rightarrow> nat \<Rightarrow> 'a list" where
  "slice xs i j = take (j - i) (drop i xs)"

text \<open>
  \<open>xs[i]\<close> for a Python int \<open>i\<close>: a negative index counts from the end, and an index
  outside the list raises IndexError.
\<close>

definition py_index :: "'a list \<Rightarrow> int \<Rightarrow> error + 'a" where
  "py_index xs i =
     (if 0 \<le> i \<and> i < int (length xs) then Inr (xs ! nat i)
      else if i < 0 \<and> - i \<le> int (length xs) then Inr (xs ! (length xs - nat (- i)))
      else Inl IndexError)"

text \<open>\<open>str(n)\<close> for a length: the decimal digits of \<open>n\<close>.\<close>

function str_nat :: "nat \<Rightarrow> string" where
  "str_nat n = (if n < 10 then [char_of (48 + n)] else str_nat (n div 10) @ [char_of (48 + n mod 10)])"
  by pat_completeness auto
termination
  by (relation "measure (\<lambda>n. n)") auto

declare str_nat.simps [simp del]

text \<open>\<open>s.lower()\<close>: the cased code points of Latin-1 are A-Z, U+00C0-U+00D6 and U+00D8-U+00DE.\<close>

definition lower_char :: "char \<Rightarrow> char" where
  "lower_char c = (let n = code c in
     if (65 \<le> n \<and> n \<le> 90) \<or> (192 \<le> n \<and> n \<le> 214) \<or> (216 \<le> n \<and> n \<le> 222)
     then char_of (n + 32) else c)"

definition lower :: "string \<Rightarrow> string" where
  "lower s = map lower_char s"

text \<open>\<open>x in s\<close> for strings: \<open>x\<close> occurs in \<open>s\<close> as a contiguous run.\<close>

fun startswith :: "string \<Rightarrow> string \<Rightarrow> bool" where
  "startswith s [] = True"
| "startswith [] (p # ps) = False"
| "startswith (c # cs) (p # ps) = (c = p \<and> startswith cs ps)"

fun contains :: "string \<Rightarrow> string \<Rightarrow> bool" where
  "contains [] x = (x = [])"
| "contains (c # cs) x = (startswith (c # cs) x \<or> contains cs x)"

text \<open>\<open>s.strip()\<close>: whitespace is removed at both ends.\<close>

definition strip :: "string \<Rightarrow> string" where
  "strip s = rev (dropWhile isspace (rev (dropWhile isspace s)))"

text \<open>
  \<open>int(np.argmax(sims))\<close>: the index of the first occurrence of the largest value; an
  empty sequence raises ValueError. The similarities are Python floats, read as reals
  (no NaN): only their order is used.
\<close>

fun argmax_from :: "nat \<Rightarrow> nat \<Rightarrow> real \<Rightarrow> real list \<Rightarrow> nat" where
  "argmax_from i best m [] = best"
| "argmax_from i best m (x # xs) =
     (if m < x then argmax_from (Suc i) i x xs else argmax_from (Suc i) best m xs)"

definition argmax :: "real list \<Rightarrow> error + nat" where
  "argmax xs = (case xs of [] \<Rightarrow> Inl ValueError | x # rest \<Rightarrow> Inr (argmax_from 1 0 x rest))"

section \<open>The chunker\<close>

text \<open>
  \<open>chunk_text(text, chunk_size)\<close>. \<open>chunk_size\<close> is a Python int: \<open>range\<close> raises
  ValueError on a zero step and yields nothing on a negative one.
\<close>

definition chunk_text :: "string \<Rightarrow> int \<Rightarrow> error + string list" where
  "chunk_text text chunk_size =
     (let words = split text in
      if chunk_size = 0 then Inl ValueError
      else if chunk_size < 0 then Inr []
      else Inr (map (\<lambda>i. join '' '' (slice words i (i + nat chunk_size)))
                  (range_step 0 (length words) (nat chunk_size))))"


text \<open>A word: not empty, and without whitespace.\<close>

definition word_ok :: "string \<Rightarrow> bool" where
  "word_ok w = (w \<noteq> [] \<and> (\<forall>c \<in> set w. \<not> isspace c))"

section \<open>Regular expressions of the query\<close>

text \<open>
  \<open>re.split(r'(?<=[.!?]) +', best_chunk)\<close>: a separator is a maximal run of blanks that
  follows a full stop, an exclamation mark or a question mark; the mark stays with its
  sentence. \<open>re_split_from piece s\<close> scans \<open>s\<close> with the sentence begun so far in \<open>piece\<close>.
\<close>

definition terminal :: "char \<Rightarrow> bool" where
  "terminal c = (c = CHR ''.'' \<or> c = CHR ''!'' \<or> c = CHR ''?'')"

definition blank :: "char \<Rightarrow> bool" where
  "blank c = (c = CHR '' '')"

function re_split_from :: "string \<Rightarrow> string \<Rightarrow> string list" where
  "re_split_from piece [] = [piece]"
| "re_split_from piece (c # cs) =
     (if terminal c \<and> cs \<noteq> [] \<and> blank (hd cs)
      then (piece @ [c]) # re_split_from [] (dropWhile blank cs)
      else re_split_from (piece @ [c]) cs)"
  by pat_completeness auto
termination
  by (relation "measure (\<lambda>(piece, s). length s)")
     (auto simp: length_dropWhile_le le_imp_less_Suc)

definition re_split :: "string \<Rightarrow> string list" where
  "re_split best_chunk = re_split_from [] best_chunk"

text \<open>Accented letters of the source's literals, by code point.\<close>

definition e_acute :: char where "e_acute = CHR 0xE9"
definition e_grave :: char where "e_grave = CHR 0xE8"
definition a_grave :: char where "a_grave = CHR 0xE0"
definition a_circ :: char where "a_circ = CHR 0xE2"
definition e_circ :: char where "e_circ = CHR 0xEA"
definition i_circ :: char where "i_circ = CHR 0xEE"
definition o_circ :: char where "o_circ = CHR 0xF4"
definition u_circ :: char where "u_circ = CHR 0xFB"
definition c_cedilla :: char where "c_cedilla = CHR 0xE7"

text \<open>
  The pattern of \<open>re.search\<close>, compiled with \<open>re.IGNORECASE\<close>, is a label (one of three
  alternatives), then \<open>\s*\<close>, an optional colon or hyphen, \<open>\s*\<close> again, and the second
  group: a non-empty run of the characters of a class. Under IGNORECASE a character
  matches a literal, or lies in a class, when its lower case does. The labels are tried
  in the order of the alternation.
\<close>

definition labels :: "string list" where
  "labels = [''pr'' @ [e_acute] @ ''sent'' @ [e_acute] @ '' par'',
             ''auteur'',
             ''pr'' @ [e_acute] @ ''sentateur'']"

fun match_literal :: "string \<Rightarrow> string \<Rightarrow> string option" where
  "match_literal [] s = Some s"
| "match_literal (p # ps) [] = None"
| "match_literal (p # ps) (c # cs) = (if lower_char c = p then match_literal ps cs else None)"

definition name_char :: "char \<Rightarrow> bool" where
  \<comment> \<open>the class of the second group: letters, the accented letters it lists, apostrophe, hyphen, blank\<close>
  "name_char c = (let l = lower_char c in
     (97 \<le> code l \<and> code l \<le> 122)
     \<or> l \<in> set [e_acute, e_grave, a_grave, a_circ, e_circ, i_circ, o_circ, u_circ, c_cedilla]
     \<or> l = CHR 0x27 \<or> l = CHR ''-'' \<or> l = CHR '' '')"

text \<open>
  \<open>\s*\<close> is greedy: it first takes the whole run of whitespace and gives characters back
  one at a time when the rest of the pattern fails. \<open>ws_choices s\<close> lists what is left of
  \<open>s\<close> after \<open>\s*\<close>, in the order the matcher tries; \<open>sep_choices\<close> does so for \<open>[:\-]?\<close>.
\<close>

definition ws_choices :: "string \<Rightarrow> string list" where
  "ws_choices s = map (\<lambda>k. drop k s) (rev [0 ..< Suc (length (takeWhile isspace s))])"

definition sep_choices :: "string \<Rightarrow> string list" where
  "sep_choices s = (case s of [] \<Rightarrow> [s]
     | c # cs \<Rightarrow> if c = CHR '':'' \<or> c = CHR ''-'' then [cs, s] else [s])"

text \<open>
  What follows a label: \<open>\s*[:\-]?\s*\<close> and the second group, which needs one character
  of the class at least and takes the longest run of them. The result is group 2 of the
  first way to match.
\<close>

definition match_name :: "string \<Rightarrow> string option" where
  "match_name s =
     (case filter (\<lambda>r. takeWhile name_char r \<noteq> [])
             (concat (map (\<lambda>a. concat (map ws_choices (sep_choices a))) (ws_choices s))) of
        [] \<Rightarrow> None
      | r # _ \<Rightarrow> Some (takeWhile name_char r))"

fun first_match :: "string list \<Rightarrow> string \<Rightarrow> string option" where
  "first_match [] s = None"
| "first_match (l # ls) s =
     (case match_literal l s of
        None \<Rightarrow> first_match ls s
      | Some r \<Rightarrow> (case match_name r of None \<Rightarrow> first_match ls s | Some g \<Rightarrow> Some g))"

text \<open>\<open>re.search\<close> tries every start position from the left; the result is \<open>match.group(2)\<close>.\<close>

fun re_search :: "string \<Rightarrow> string option" where
  "re_search [] = first_match labels []"
| "re_search (c # cs) =
     (case first_match labels (c # cs) of Some g \<Rightarrow> Some g | None \<Rightarrow> re_search cs)"

text \<open>
  \<open>re.sub\<close> with the negated class and the empty replacement deletes every character that
  is not kept. The characters kept are the ASCII letters, U+00C0-U+00D6, U+00D8-U+00F6,
  U+00F8-U+00FF, apostrophe, hyphen and blank.
\<close>

definition keep_char :: "char \<Rightarrow> bool" where
  "keep_char c = (let n = code c in
     (65 \<le> n \<and> n \<le> 90) \<or> (97 \<le> n \<and> n \<le> 122) \<or> (192 \<le> n \<and> n \<le> 214)
     \<or> (216 \<le> n \<and> n \<le> 246) \<or> (248 \<le> n \<and> n \<le> 255) \<or> n = 39 \<or> n = 45 \<or> n = 32)"

definition re_sub :: "string \<Rightarrow> string" where
  "re_sub nom = filter keep_char nom"

section \<open>Collaborators\<close>

text \<open>
  The PDF reader, the sentence-embedding model, the flat L2 index and the cosine
  similarity are libraries. The program is modelled over any behaviour of theirs:
  \<^item> \<open>pdf_reader path\<close> is \<open>None\<close> when opening or parsing the file raises, and otherwise
    what \<open>extract_text()\<close> yields for each page (\<open>None\<close> for a page without text);
  \<^item> \<open>encode texts\<close> is the array \<open>model.encode(texts)\<close>, as the list of its rows;
  \<^item> \<open>index_search index queries k\<close> is the array \<open>I\<close> of labels of \<open>index.search(queries, k)\<close>;
  \<^item> \<open>cos_sim u v\<close> is the number \<open>cos_sim(u, v)[0][0].item()\<close>.
  The components of a vector are not interpreted.
\<close>

record 'a index_flat =
  d :: nat
  xb :: "'a list list"

record 'a collaborators =
  pdf_reader :: "string \<Rightarrow> string option list option"
  encode :: "string list \<Rightarrow> 'a list list"
  index_search :: "'a index_flat \<Rightarrow> 'a list list \<Rightarrow> nat \<Rightarrow> int list list"
  cos_sim :: "'a list \<Rightarrow> 'a list \<Rightarrow> real"

text \<open>\<open>faiss.IndexFlatL2(dim)\<close> is an empty index; \<open>index.add(rows)\<close> appends the rows.\<close>

definition IndexFlatL2 :: "nat \<Rightarrow> 'a index_flat" where
  "IndexFlatL2 dimension = \<lparr>d = dimension, xb = []\<rparr>"

definition add :: "'a index_flat \<Rightarrow> 'a list list \<Rightarrow> 'a index_flat" where
  "add index rows = index\<lparr>xb := xb index @ rows\<rparr>"

text \<open>
  \<open>embeddings.shape[1]\<close>: the array of a non-empty list of rows is two-dimensional and its
  second dimension is the length of a row; the array of no rows has the shape \<open>(0,)\<close>, and
  reading its second dimension raises IndexError.
\<close>

definition shape1 :: "'a list list \<Rightarrow> error + nat" where
  "shape1 embeddings = (case embeddings of [] \<Rightarrow> Inl IndexError | row # _ \<Rightarrow> Inr (length row))"

section \<open>Ingestion\<close>

record 'a entry =
  entry_index :: "'a index_flat"
  entry_chunks :: "string list"

type_synonym 'a registry = "string \<rightharpoonup> 'a entry"

text \<open>\<open>extract_pdf_text\<close>: the texts of the pages, concatenated; a page without text adds nothing.\<close>

definition extract_pdf_text :: "'a collaborators \<Rightarrow> string \<Rightarrow> error + string" where
  "extract_pdf_text env pdf_path =
     (case pdf_reader env pdf_path of
        None \<Rightarrow> Inl ReadError
      | Some pages \<Rightarrow>
          Inr (foldl (\<lambda>text page. text @ (case page of None \<Rightarrow> [] | Some t \<Rightarrow> t)) [] pages))"

text \<open>
  \<open>index_pdf\<close> takes the dictionary \<open>PDF_INDEXES\<close> and returns it with the result: an
  exception leaves it as it was, a completed call has stored the entry of the session.
\<close>

definition index_pdf ::
  "'a collaborators \<Rightarrow> string \<Rightarrow> string \<Rightarrow> 'a registry \<Rightarrow> (error + string) \<times> 'a registry" where
  "index_pdf env file_path session_id PDF_INDEXES =
     (case extract_pdf_text env file_path of
        Inl e \<Rightarrow> (Inl e, PDF_INDEXES)
      | Inr text \<Rightarrow>
     (case chunk_text text 128 of
        Inl e \<Rightarrow> (Inl e, PDF_INDEXES)
      | Inr chunks \<Rightarrow>
     (let embeddings = encode env chunks in
      case shape1 embeddings of
        Inl e \<Rightarrow> (Inl e, PDF_INDEXES)
      | Inr dimension \<Rightarrow>
     (let index = add (IndexFlatL2 dimension) embeddings in
      (Inr (''PDF index'' @ [e_acute] @ '' avec '' @ str_nat (length chunks) @ '' passages.''),
       PDF_INDEXES(session_id \<mapsto> \<lparr>entry_index = index, entry_chunks = chunks\<rparr>))))))"

section \<open>Query\<close>

text \<open>The best chunk: \<open>chunks[int(I[0][0])]\<close> for the labels \<open>I\<close> of the search with \<open>k=1\<close>.\<close>

definition best_chunk_of :: "'a collaborators \<Rightarrow> string \<Rightarrow> 'a entry \<Rightarrow> error + string" where
  "best_chunk_of env question e =
     (let index = entry_index e;
          chunks = entry_chunks e;
          q_emb = encode env [question];
          I = index_search env index q_emb 1
      in case py_index I 0 of
           Inl err \<Rightarrow> Inl err
         | Inr row \<Rightarrow>
        (case py_index row 0 of
           Inl err \<Rightarrow> Inl err
         | Inr idx \<Rightarrow> py_index chunks idx))"

text \<open>
  The sentence of the best chunk closest to the question: the chunk itself when the split
  gives one sentence, and otherwise the sentence at the argmax of the similarities.
\<close>

definition best_sentence_of :: "'a collaborators \<Rightarrow> string \<Rightarrow> string \<Rightarrow> error + string" where
  "best_sentence_of env question best_chunk =
     (let sentences = re_split best_chunk in
      if length sentences = 1 then Inr best_chunk
      else
        (let sent_embs = encode env sentences in
         case py_index (encode env [question]) 0 of
           Inl err \<Rightarrow> Inl err
         | Inr q_emb_single \<Rightarrow>
        (let sims = map (\<lambda>s_emb. cos_sim env q_emb_single s_emb) sent_embs in
         case argmax sims of
           Inl err \<Rightarrow> Inl err
         | Inr best_idx \<Rightarrow> py_index sentences (int best_idx))))"

text \<open>The extraction of a name when the question is about the author or the presenter.\<close>

definition triggers :: "string list" where
  "triggers = [''pr'' @ [e_acute] @ ''sent'' @ [e_acute],
               ''pr'' @ [e_acute] @ ''sentateur'',
               ''auteur'',
               ''qui a fait'',
               ''qui a '' @ [e_acute] @ ''crit'',
               ''qui a r'' @ [e_acute] @ ''alis'' @ [e_acute]]"

definition asks_author :: "string \<Rightarrow> bool" where
  "asks_author question = list_ex (\<lambda>x. contains (lower question) x) triggers"

definition extract_author :: "string \<Rightarrow> string \<Rightarrow> string" where
  "extract_author question best_sentence =
     (if asks_author question then
        (case re_search best_sentence of
           Some group2 \<Rightarrow> re_sub (strip group2)
         | None \<Rightarrow> best_sentence)
      else best_sentence)"

text \<open>The refinement of the best chunk: the part of \<open>rag_query\<close> after the search.\<close>

definition refine :: "'a collaborators \<Rightarrow> string \<Rightarrow> string \<Rightarrow> error + string" where
  "refine env question best_chunk =
     (case best_sentence_of env question best_chunk of
        Inl err \<Rightarrow> Inl err
      | Inr best_sentence \<Rightarrow> Inr (extract_author question best_sentence))"

text \<open>\<open>rag_query\<close> reads \<open>PDF_INDEXES\<close> and returns it with the result.\<close>

definition rag_query ::
  "'a collaborators \<Rightarrow> string \<Rightarrow> string \<Rightarrow> 'a registry \<Rightarrow> (error + string) \<times> 'a registry" where
  "rag_query env question session_id PDF_INDEXES =
     (case PDF_INDEXES session_id of
        None \<Rightarrow> (Inr (''Aucun PDF index'' @ [e_acute] @ '' pour cette session.''), PDF_INDEXES)
      | Some e \<Rightarrow>
         (case best_chunk_of env question e of
            Inl err \<Rightarrow> (Inl err, PDF_INDEXES)
          | Inr best_chunk \<Rightarrow> (refine env question best_chunk, PDF_INDEXES)))"

section \<open>A small instance of the collaborators\<close>

text \<open>
  An instance on which the program can be run: three files, an encoder that maps a text
  to the vector of its length, a search that returns the first row whose vector equals
  the query (and the last row when there is none), and a similarity that is the
  negated distance of the lengths.
\<close>

definition toy_reader :: "string \<Rightarrow> string option list option" where
  "toy_reader path =
     (if path = ''empty.pdf'' then Some [Some ''  '', None]
      else if path = ''a.pdf'' then Some [Some ''Rapport annuel. Auteur: Jane Doe'']
      else if path = ''b.pdf'' then Some [Some ''Notes de cours.'', None, Some '' Fin'']
      else None)"

fun toy_find :: "nat list list \<Rightarrow> nat list \<Rightarrow> int \<Rightarrow> int" where
  "toy_find [] q i = i - 1"
| "toy_find (row # rows) q i = (if row = q then i else toy_find rows q (i + 1))"

definition toy :: "nat collaborators" where
  "toy = \<lparr>pdf_reader = toy_reader,
          encode = map (\<lambda>s. [length s]),
          index_search = (\<lambda>index queries k. map (\<lambda>q. [toy_find (xb index) q 0]) queries),
          cos_sim = (\<lambda>u v. - \<bar>real (hd u) - real (hd v)\<bar>)\<rparr>"

section \<open>Properties of the chunker\<close>

lemma isspace_blank [simp]: "isspace CHR '' ''"
  by (simp add: isspace_def code_def)

lemma split_from_append_word:
  "\<forall>c \<in> set v. \<not> isspace c \<Longrightarrow> split_from w (v @ s) = split_from (w @ v) s"
  by (induction v arbitrary: w) simp_all

lemma split_from_words_ok:
  "\<forall>c \<in> set w. \<not> isspace c \<Longrightarrow> \<forall>x \<in> set (split_from w s). word_ok x"
proof (induction s arbitrary: w)
  case Nil
  then show ?case by (simp add: word_ok_def)
next
  case (Cons c cs)
  show ?case
  proof (cases "isspace c")
    case True
    have "\<forall>x \<in> set (split_from [] cs). word_ok x" by (rule Cons.IH) simp
    then show ?thesis using True Cons.prems by (simp add: word_ok_def)
  next
    case False
    have "\<forall>x \<in> set (split_from (w @ [c]) cs). word_ok x"
      by (rule Cons.IH) (use False Cons.prems in simp)
    then show ?thesis using False by simp
  qed
qed

lemma split_words_ok: "\<forall>x \<in> set (split s). word_ok x"
  unfolding split_def by (rule split_from_words_ok) simp

lemma split_from_whitespace:
  "\<forall>c \<in> set s. isspace c \<Longrightarrow> split_from [] s = []"
  by (induction s) simp_all

lemma split_from_join_then:
  "ws \<noteq> [] \<Longrightarrow> \<forall>x \<in> set ws. word_ok x \<Longrightarrow>
   split_from [] (join '' '' ws @ CHR '' '' # s) = ws @ split_from [] s"
proof (induction "'' ''" ws rule: join.induct)
  case 1
  then show ?case by simp
next
  case (2 x)
  then have "split_from [] (x @ CHR '' '' # s) = split_from x (CHR '' '' # s)"
    using split_from_append_word [of x "[]" "CHR '' '' # s"] by (simp add: word_ok_def)
  with 2 show ?case by (simp add: word_ok_def)
next
  case (3 x y ys)
  have "split_from [] (x @ CHR '' '' # (join '' '' (y # ys) @ CHR '' '' # s))
        = split_from x (CHR '' '' # (join '' '' (y # ys) @ CHR '' '' # s))"
    using 3 split_from_append_word [of x "[]"] by (simp add: word_ok_def)
  with 3 show ?case by (simp add: word_ok_def)
qed

lemma split_from_join:
  "\<forall>x \<in> set ws. word_ok x \<Longrightarrow> split_from [] (join '' '' ws) = ws"
proof (induction "'' ''" ws rule: join.induct)
  case 1
  then show ?case by simp
next
  case (2 x)
  then show ?case
    using split_from_append_word [of x "[]" "[]"] by (simp add: word_ok_def)
next
  case (3 x y ys)
  have "split_from [] (x @ CHR '' '' # join '' '' (y # ys))
        = split_from x (CHR '' '' # join '' '' (y # ys))"
    using 3 split_from_append_word [of x "[]"] by (simp add: word_ok_def)
  with 3 show ?case by (simp add: word_ok_def)
qed

lemma join_nonempty:
  "ws \<noteq> [] \<Longrightarrow> \<forall>x \<in> set ws. x \<noteq> [] \<Longrightarrow> join sep ws \<noteq> []"
  by (induction sep ws rule: join.induct) simp_all

lemma join_append:
  "xs \<noteq> [] \<Longrightarrow> ys \<noteq> [] \<Longrightarrow> join sep (xs @ ys) = join sep xs @ sep @ join sep ys"
proof (induction sep xs rule: join.induct)
  case (2 sep x)
  then show ?case by (cases ys) simp_all
qed simp_all

lemma join_groups:
  "\<forall>g \<in> set gs. g \<noteq> [] \<Longrightarrow> join sep (map (join sep) gs) = join sep (concat gs)"
proof (induction gs)
  case Nil
  then show ?case by simp
next
  case (Cons g gs)
  show ?case
  proof (cases gs)
    case Nil
    then show ?thesis by simp
  next
    case (Cons h hs)
    then have ne: "concat gs \<noteq> []" using Cons.prems by auto
    have "join sep (map (join sep) (g # gs)) = join sep g @ sep @ join sep (map (join sep) gs)"
      using Cons by simp
    also have "\<dots> = join sep g @ sep @ join sep (concat gs)"
      using Cons.IH Cons.prems by simp
    also have "\<dots> = join sep (g @ concat gs)"
      using join_append [of g "concat gs" sep] ne Cons.prems by simp
    finally show ?thesis by simp
  qed
qed

lemma range_step_count:
  assumes "0 < (step::nat)" "i < stop"
  shows "Suc ((stop - (i + step) + step - 1) div step) = (stop - i + step - 1) div step"
proof -
  define d where "d = stop - i - 1"
  have s: "stop = i + d + 1" using assms by (simp add: d_def)
  have "(d + step) div step = d div step + 1" using assms by simp
  moreover have "(stop - (i + step) + step - 1) div step = d div step"
  proof (cases "step \<le> d + 1")
    case True
    then show ?thesis by (simp add: s)
  next
    case False
    then show ?thesis using assms by (simp add: s)
  qed
  ultimately show ?thesis using assms by (simp add: s)
qed

lemma range_step_length:
  "0 < n \<Longrightarrow> length (range_step i stop n) = (stop - i + n - 1) div n"
proof (induction i stop n rule: range_step.induct)
  case (1 i stop step)
  show ?case
  proof (cases "i < stop")
    case True
    then have "length (range_step i stop step) = Suc ((stop - (i + step) + step - 1) div step)"
      using 1 by (simp add: range_step.simps [of i])
    then show ?thesis using range_step_count [OF 1(2) True] by simp
  next
    case False
    then show ?thesis using 1(2) by (simp add: range_step.simps [of i])
  qed
qed

lemma range_step_bound: "k \<in> set (range_step i stop n) \<Longrightarrow> k < stop"
proof (induction i stop n rule: range_step.induct)
  case (1 i stop step)
  then show ?case
    by (cases "0 < step \<and> i < stop") (auto simp: range_step.simps [of i])
qed

lemma concat_slices:
  "0 < n \<Longrightarrow> stop = length ws \<Longrightarrow>
   concat (map (\<lambda>i. slice ws i (i + n)) (range_step i stop n)) = drop i ws"
proof (induction i stop n rule: range_step.induct)
  case (1 i stop step)
  show ?case
  proof (cases "i < stop")
    case True
    have "take step (drop i ws) @ drop (i + step) ws = drop i ws"
      by (metis add.commute append_take_drop_id drop_drop)
    then show ?thesis
      using True 1 by (simp add: range_step.simps [of i] slice_def)
  next
    case False
    then show ?thesis using 1 by (simp add: range_step.simps [of i])
  qed
qed

lemma ceil_div_int:
  assumes "0 < (b::int)"
  shows "- (- a div b) = (a + b - 1) div b"
proof (cases "a mod b = 0")
  case True
  define q where "q = a div b"
  have q: "a = q * b" using True div_mult_mod_eq [of a b] by (simp add: q_def)
  have "(q * b + (b - 1)) div b = q + (b - 1) div b"
    using assms div_mult_self3 [of b q "b - 1"] by simp
  moreover have "(b - 1) div b = 0" using assms by (simp add: div_pos_pos_trivial)
  moreover have "a + b - 1 = q * b + (b - 1)" using q by simp
  ultimately have "(a + b - 1) div b = q" by (simp only: add_0_right)
  moreover have "- a div b = - q" using True assms by (simp add: zdiv_zminus1_eq_if q_def)
  ultimately show ?thesis by (simp only: minus_minus)
next
  case False
  define q r where "q = a div b" and "r = a mod b"
  have a: "a = q * b + r" by (simp add: q_def r_def)
  have "0 \<le> r" "r < b" using assms by (simp_all add: r_def)
  then have r: "0 < r" "r < b" using False by (simp_all add: r_def)
  have "a + b - 1 = (r - 1) + (q + 1) * b" by (simp add: a algebra_simps)
  moreover have "((r - 1) + (q + 1) * b) div b = (q + 1) + (r - 1) div b"
    using assms div_mult_self1 [of b "r - 1" "q + 1"] by simp
  ultimately have "(a + b - 1) div b = (q + 1) + (r - 1) div b" by (simp only:)
  moreover have "(r - 1) div b = 0" using r by (simp add: div_pos_pos_trivial)
  moreover have "- a div b = - q - 1"
    using False assms by (simp add: zdiv_zminus1_eq_if q_def)
  ultimately show ?thesis by simp
qed

lemma ceil_div_nat:
  assumes "0 < m"
  shows "- (- int w div int m) = int ((w + m - 1) div m)"
proof -
  have "int ((w + m - 1) div m) = (int w + int m - 1) div int m"
    using assms by (simp add: zdiv_int of_nat_diff)
  then show ?thesis using ceil_div_int [of "int m" "int w"] assms by simp
qed

text \<open>
  C1. For every text and every chunk size \<open>n > 0\<close>, \<open>chunk_text\<close> returns \<open>ceil(W / n)\<close>
  chunks, where \<open>W\<close> is the number of words of \<open>text.split()\<close> (no chunk when there is
  no word, as for a text that is empty or all whitespace); no chunk is empty; and the chunks joined with single blanks are the words
  joined with single blanks, so that splitting the result gives the words again.
\<close>

theorem chunk_text_partition:
  assumes "0 < n"
  shows "\<exists>cs. chunk_text text n = Inr cs
           \<and> int (length cs) = \<lceil>real (length (split text)) / of_int n\<rceil>
           \<and> (split text = [] \<longrightarrow> cs = [])
           \<and> ((\<forall>c \<in> set text. isspace c) \<longrightarrow> cs = [])
           \<and> (\<forall>c \<in> set cs. c \<noteq> [])
           \<and> join '' '' cs = join '' '' (split text)
           \<and> split (join '' '' cs) = split text"
proof -
  define m where "m = nat n"
  define ws where "ws = split text"
  define gs where "gs = map (\<lambda>i. slice ws i (i + m)) (range_step 0 (length ws) m)"
  define cs where "cs = map (join '' '') gs"
  have m: "0 < m" "n = int m" using assms by (simp_all add: m_def)
  have ok: "\<forall>x \<in> set ws. word_ok x" unfolding ws_def by (rule split_words_ok)
  have cs: "chunk_text text n = Inr cs"
    using assms by (simp add: chunk_text_def cs_def gs_def ws_def m_def Let_def comp_def)
  have gne: "\<forall>g \<in> set gs. g \<noteq> []"
    using m(1) by (auto simp: gs_def slice_def dest: range_step_bound)
  have cat: "concat gs = ws"
    using concat_slices [of m "length ws" ws 0] m(1) by (simp add: gs_def)
  have gsub: "\<forall>g \<in> set gs. set g \<subseteq> set ws"
    using cat by auto
  have len: "length cs = (length ws + m - 1) div m"
    using range_step_length [of m 0 "length ws"] m(1) by (simp add: cs_def gs_def)
  have "\<lceil>real (length ws) / of_int n\<rceil> = - (- int (length ws) div int m)"
    using ceiling_divide_eq_div [of "int (length ws)" "int m"] m(2) by simp
  also have "\<dots> = int ((length ws + m - 1) div m)"
      using m(1) by (rule ceil_div_nat)
  finally have c1: "int (length cs) = \<lceil>real (length (split text)) / of_int n\<rceil>"
    using len by (simp add: ws_def)
  have c2: "split text = [] \<longrightarrow> cs = []"
    by (simp add: cs_def gs_def ws_def range_step.simps [of 0 0])
  have c2': "(\<forall>c \<in> set text. isspace c) \<longrightarrow> cs = []"
    using c2 split_from_whitespace [of "text"] by (simp add: split_def)
  have c3: "\<forall>c \<in> set cs. c \<noteq> []"
  proof
    fix c assume "c \<in> set cs"
    then obtain g where g: "g \<in> set gs" "c = join '' '' g" by (auto simp: cs_def)
    then have "g \<noteq> []" "\<forall>x \<in> set g. x \<noteq> []"
      using gne gsub ok by (auto simp: word_ok_def)
    then show "c \<noteq> []" using g join_nonempty by simp
  qed
  have c4: "join '' '' cs = join '' '' ws"
    using join_groups [OF gne, of "'' ''"] cat by (simp add: cs_def)
  have c5: "split (join '' '' cs) = ws"
    using c4 split_from_join [OF ok] by (simp add: split_def)
  show ?thesis using cs c1 c2 c2' c3 c4 c5 by (simp add: ws_def)
qed

theorem chunk_text_partition_witness:
  "(0::int) < 2 \<and>
   (\<exists>cs. chunk_text '' le  chat dort '' 2 = Inr cs
      \<and> int (length cs) = \<lceil>real (length (split '' le  chat dort '')) / of_int 2\<rceil>
      \<and> (split '' le  chat dort '' = [] \<longrightarrow> cs = [])
      \<and> ((\<forall>c \<in> set '' le  chat dort ''. isspace c) \<longrightarrow> cs = [])
      \<and> (\<forall>c \<in> set cs. c \<noteq> [])
      \<and> join '' '' cs = join '' '' (split '' le  chat dort '')
      \<and> split (join '' '' cs) = split '' le  chat dort '')"
  using chunk_text_partition [of 2 "'' le  chat dort ''"] by simp

section \<open>Properties of the registry\<close>

lemma rag_query_reads_entry:
  "PDF_INDEXES session_id = other session_id \<Longrightarrow>
   fst (rag_query env question session_id PDF_INDEXES) = fst (rag_query env question session_id other)"
  by (simp add: rag_query_def split: option.splits sum.splits)

lemma index_pdf_other_session:
  "a \<noteq> b \<Longrightarrow> snd (index_pdf env file_path b PDF_INDEXES) a = PDF_INDEXES a"
  by (simp add: index_pdf_def Let_def split: sum.splits)

lemma index_pdf_failure:
  "index_pdf env file_path session_id PDF_INDEXES = (Inl e, after) \<Longrightarrow> after = PDF_INDEXES"
  by (auto simp: index_pdf_def Let_def split: sum.splits)

lemma index_pdf_success:
  assumes "index_pdf env file_path session_id PDF_INDEXES = (Inr msg, after)"
  shows "\<exists>text chunks dimension.
           extract_pdf_text env file_path = Inr text
         \<and> chunk_text text 128 = Inr chunks
         \<and> shape1 (encode env chunks) = Inr dimension
         \<and> after = PDF_INDEXES(session_id \<mapsto>
               \<lparr>entry_index = add (IndexFlatL2 dimension) (encode env chunks),
                entry_chunks = chunks\<rparr>)"
  using assms by (auto simp: index_pdf_def Let_def split: sum.splits)

lemma index_pdf_entry_any_registry:
  assumes "index_pdf env file_path session_id PDF_INDEXES = (Inr msg, after)"
  shows "snd (index_pdf env file_path session_id other) session_id = after session_id"
  using assms by (auto simp: index_pdf_def Let_def split: sum.splits)

lemma py_index_error: "py_index xs i = Inl e \<Longrightarrow> e = IndexError"
  by (simp add: py_index_def split: if_splits)

lemma py_index_empty: "py_index [] i = Inl IndexError"
  by (simp add: py_index_def)

lemma py_index_nat: "k < length xs \<Longrightarrow> py_index xs (int k) = Inr (xs ! k)"
  by (simp add: py_index_def)

lemma best_chunk_of_no_chunks:
  "entry_chunks e = [] \<Longrightarrow> best_chunk_of env question e = Inl IndexError"
  by (auto simp: best_chunk_of_def Let_def py_index_empty split: sum.splits dest: py_index_error)

lemma query_no_chunks:
  "PDF_INDEXES session_id = Some e \<Longrightarrow> entry_chunks e = [] \<Longrightarrow>
   fst (rag_query env question session_id PDF_INDEXES) = Inl IndexError"
  by (simp add: rag_query_def best_chunk_of_no_chunks)

lemma index_pdf_no_words:
  assumes "extract_pdf_text env file_path = Inr doc" and "split doc = []" and "encode env [] = []"
  shows "index_pdf env file_path session_id PDF_INDEXES = (Inl IndexError, PDF_INDEXES)"
  using assms
  by (simp add: index_pdf_def chunk_text_def shape1_def range_step.simps [of 0 0])

text \<open>
  C4. A query for a session that has no entry in \<open>PDF_INDEXES\<close> returns the fixed message
  of the source ("Aucun PDF index\<acute>e pour cette session.") as its answer, whatever the
  question is; it raises nothing and leaves the dictionary as it was.
\<close>

theorem unknown_session_sentinel:
  "PDF_INDEXES session_id = None \<Longrightarrow>
   rag_query env question session_id PDF_INDEXES
     = (Inr (''Aucun PDF index'' @ [e_acute] @ '' pour cette session.''), PDF_INDEXES)"
  by (simp add: rag_query_def)

theorem unknown_session_sentinel_witness:
  "(Map.empty :: nat registry) ''inconnue'' = None \<and>
   rag_query toy ''Qui ?'' ''inconnue'' Map.empty
     = (Inr (''Aucun PDF index'' @ [e_acute] @ '' pour cette session.''), Map.empty)"
  using unknown_session_sentinel [of Map.empty "''inconnue''" toy "''Qui ?''"] by simp

text \<open>
  C10. A query returns the dictionary \<open>PDF_INDEXES\<close> exactly as it received it: no entry
  is added, removed or changed, whether the query answers, raises or finds no session.
\<close>

theorem rag_query_frame:
  "snd (rag_query env question session_id PDF_INDEXES) = PDF_INDEXES"
  by (simp add: rag_query_def split: option.splits sum.splits)

text \<open>
  C3. When a session that was ingested with a document is ingested again with a second
  document, and the second ingestion completes, the entry of the session is built from
  the second document alone (its chunks and the index of their embeddings), and every
  later query on the session answers as it would had only the second document ever been
  ingested.
\<close>

theorem reingest_replaces_entry:
  assumes "index_pdf env d2 s (snd (index_pdf env d1 s PDF_INDEXES)) = (Inr msg, after)"
  shows "(\<exists>text chunks dimension.
            extract_pdf_text env d2 = Inr text
          \<and> chunk_text text 128 = Inr chunks
          \<and> shape1 (encode env chunks) = Inr dimension
          \<and> after s = Some \<lparr>entry_index = add (IndexFlatL2 dimension) (encode env chunks),
                             entry_chunks = chunks\<rparr>)
       \<and> (\<forall>question. fst (rag_query env question s after)
             = fst (rag_query env question s (snd (index_pdf env d2 s Map.empty))))"
proof
  obtain doc chunks dimension where
    "extract_pdf_text env d2 = Inr doc" "chunk_text doc 128 = Inr chunks"
    "shape1 (encode env chunks) = Inr dimension"
    "after = (snd (index_pdf env d1 s PDF_INDEXES))(s \<mapsto>
               \<lparr>entry_index = add (IndexFlatL2 dimension) (encode env chunks),
                entry_chunks = chunks\<rparr>)"
    using index_pdf_success [OF assms] by blast
  then show "\<exists>text chunks dimension.
            extract_pdf_text env d2 = Inr text
          \<and> chunk_text text 128 = Inr chunks
          \<and> shape1 (encode env chunks) = Inr dimension
          \<and> after s = Some \<lparr>entry_index = add (IndexFlatL2 dimension) (encode env chunks),
                             entry_chunks = chunks\<rparr>"
    by auto
next
  have "after s = snd (index_pdf env d2 s Map.empty) s"
    using index_pdf_entry_any_registry [OF assms, of Map.empty] by simp
  then show "\<forall>question. fst (rag_query env question s after)
             = fst (rag_query env question s (snd (index_pdf env d2 s Map.empty)))"
    using rag_query_reads_entry by blast
qed

theorem reingest_replaces_entry_witness:
  "index_pdf toy ''b.pdf'' ''s'' (snd (index_pdf toy ''a.pdf'' ''s'' Map.empty))
     = (Inr (''PDF index'' @ [e_acute] @ '' avec 1 passages.''),
        snd (index_pdf toy ''b.pdf'' ''s'' (snd (index_pdf toy ''a.pdf'' ''s'' Map.empty))))
   \<and> fst (rag_query toy ''Fin ?'' ''s''
          (snd (index_pdf toy ''b.pdf'' ''s'' (snd (index_pdf toy ''a.pdf'' ''s'' Map.empty)))))
       = Inr ''Fin''"
proof -
  have "fst (index_pdf toy ''b.pdf'' ''s'' (snd (index_pdf toy ''a.pdf'' ''s'' Map.empty)))
          = Inr (''PDF index'' @ [e_acute] @ '' avec 1 passages.'')"
    by code_simp
  then have h: "index_pdf toy ''b.pdf'' ''s'' (snd (index_pdf toy ''a.pdf'' ''s'' Map.empty))
     = (Inr (''PDF index'' @ [e_acute] @ '' avec 1 passages.''),
        snd (index_pdf toy ''b.pdf'' ''s'' (snd (index_pdf toy ''a.pdf'' ''s'' Map.empty))))"
    by (simp add: prod_eq_iff)
  have c: "fst (rag_query toy ''Fin ?'' ''s'' (snd (index_pdf toy ''b.pdf'' ''s'' Map.empty)))
             = Inr ''Fin''"
    by code_simp
  from reingest_replaces_entry [OF h]
  have e: "fst (rag_query toy ''Fin ?'' ''s''
          (snd (index_pdf toy ''b.pdf'' ''s'' (snd (index_pdf toy ''a.pdf'' ''s'' Map.empty)))))
        = fst (rag_query toy ''Fin ?'' ''s'' (snd (index_pdf toy ''b.pdf'' ''s'' Map.empty)))"
    by blast
  from e c have "fst (rag_query toy ''Fin ?'' ''s''
          (snd (index_pdf toy ''b.pdf'' ''s'' (snd (index_pdf toy ''a.pdf'' ''s'' Map.empty)))))
        = Inr ''Fin''"
    by (rule trans)
  with h show ?thesis by (rule conjI)
qed

text \<open>
  C8. For two distinct sessions, each ingested with its own document (both ingestions
  complete), a query on either session answers as it would had the other session never
  been ingested: the answer for \<open>a\<close> is computed from the entry built from the document of
  \<open>a\<close> alone, and the answer for \<open>b\<close> from the entry built from the document of \<open>b\<close> alone.
\<close>

theorem sessions_isolated:
  assumes "a \<noteq> b"
    and "index_pdf env da a PDF_INDEXES = (Inr ma, reg1)"
    and "index_pdf env db b reg1 = (Inr mb, reg2)"
  shows "fst (rag_query env question a reg2)
           = fst (rag_query env question a (snd (index_pdf env da a Map.empty)))
       \<and> fst (rag_query env question b reg2)
           = fst (rag_query env question b (snd (index_pdf env db b Map.empty)))"
proof
  have "reg2 a = reg1 a"
    using index_pdf_other_session [OF assms(1), of env db reg1] assms(3) by simp
  also have "\<dots> = snd (index_pdf env da a Map.empty) a"
    using index_pdf_entry_any_registry [OF assms(2), of Map.empty] by simp
  finally show "fst (rag_query env question a reg2)
           = fst (rag_query env question a (snd (index_pdf env da a Map.empty)))"
    by (rule rag_query_reads_entry)
next
  have "reg2 b = snd (index_pdf env db b Map.empty) b"
    using index_pdf_entry_any_registry [OF assms(3), of Map.empty] by simp
  then show "fst (rag_query env question b reg2)
           = fst (rag_query env question b (snd (index_pdf env db b Map.empty)))"
    by (rule rag_query_reads_entry)
qed

theorem sessions_isolated_witness:
  "''s1'' \<noteq> ''s2''
   \<and> index_pdf toy ''a.pdf'' ''s1'' Map.empty
       = (Inr (''PDF index'' @ [e_acute] @ '' avec 1 passages.''),
          snd (index_pdf toy ''a.pdf'' ''s1'' Map.empty))
   \<and> index_pdf toy ''b.pdf'' ''s2'' (snd (index_pdf toy ''a.pdf'' ''s1'' Map.empty))
       = (Inr (''PDF index'' @ [e_acute] @ '' avec 1 passages.''),
          snd (index_pdf toy ''b.pdf'' ''s2'' (snd (index_pdf toy ''a.pdf'' ''s1'' Map.empty))))
   \<and> (fst (rag_query toy ''Fin ?'' ''s1''
          (snd (index_pdf toy ''b.pdf'' ''s2'' (snd (index_pdf toy ''a.pdf'' ''s1'' Map.empty)))))
       = fst (rag_query toy ''Fin ?'' ''s1'' (snd (index_pdf toy ''a.pdf'' ''s1'' Map.empty)))
   \<and> fst (rag_query toy ''Fin ?'' ''s2''
          (snd (index_pdf toy ''b.pdf'' ''s2'' (snd (index_pdf toy ''a.pdf'' ''s1'' Map.empty)))))
       = fst (rag_query toy ''Fin ?'' ''s2'' (snd (index_pdf toy ''b.pdf'' ''s2'' Map.empty))))"
proof -
  have n: "''s1'' \<noteq> ''s2''" by simp
  have "fst (index_pdf toy ''a.pdf'' ''s1'' Map.empty)
          = Inr (''PDF index'' @ [e_acute] @ '' avec 1 passages.'')"
    by code_simp
  then have h1: "index_pdf toy ''a.pdf'' ''s1'' Map.empty
       = (Inr (''PDF index'' @ [e_acute] @ '' avec 1 passages.''),
          snd (index_pdf toy ''a.pdf'' ''s1'' Map.empty))"
    by (simp add: prod_eq_iff)
  have "fst (index_pdf toy ''b.pdf'' ''s2'' (snd (index_pdf toy ''a.pdf'' ''s1'' Map.empty)))
          = Inr (''PDF index'' @ [e_acute] @ '' avec 1 passages.'')"
    by code_simp
  then have h2: "index_pdf toy ''b.pdf'' ''s2'' (snd (index_pdf toy ''a.pdf'' ''s1'' Map.empty))
       = (Inr (''PDF index'' @ [e_acute] @ '' avec 1 passages.''),
          snd (index_pdf toy ''b.pdf'' ''s2'' (snd (index_pdf toy ''a.pdf'' ''s1'' Map.empty))))"
    by (simp add: prod_eq_iff)
  note c = sessions_isolated [OF n h1 h2, of "''Fin ?''"]
  show ?thesis
    by (rule conjI [OF n conjI [OF h1 conjI [OF h2 c]]])
qed

section \<open>Properties of the refinement\<close>

lemma re_split_from_nonempty: "re_split_from piece s \<noteq> []"
  by (induction piece s rule: re_split_from.induct) simp_all

lemma re_split_from_single:
  "re_split_from piece s = [x] \<Longrightarrow> x = piece @ s"
proof (induction piece s rule: re_split_from.induct)
  case (1 piece)
  then show ?case by simp
next
  case (2 piece c cs)
  show ?case
  proof (cases "terminal c \<and> cs \<noteq> [] \<and> blank (hd cs)")
    case True
    then have "re_split_from piece (c # cs) = (piece @ [c]) # re_split_from [] (dropWhile blank cs)"
      by simp
    moreover have "re_split_from [] (dropWhile blank cs) \<noteq> []"
      by (rule re_split_from_nonempty)
    ultimately show ?thesis using 2(3) by simp
  next
    case False
    then have "re_split_from piece (c # cs) = re_split_from (piece @ [c]) cs"
      by (simp only: re_split_from.simps if_False)
    then have "re_split_from (piece @ [c]) cs = [x]" using 2(3) by simp
    then have "x = (piece @ [c]) @ cs" using False by (rule 2(2) [rotated])
    then show ?thesis by simp
  qed
qed

lemma re_split_single: "length (re_split best_chunk) = 1 \<Longrightarrow> re_split best_chunk = [best_chunk]"
proof -
  assume "length (re_split best_chunk) = 1"
  then obtain x where x: "re_split best_chunk = [x]"
    by (cases "re_split best_chunk") simp_all
  then have "x = best_chunk" using re_split_from_single [of "[]" best_chunk x] by (simp add: re_split_def)
  with x show ?thesis by simp
qed

lemma argmax_from_first_max:
  "(argmax_from i best m xs = best \<and> (\<forall>x \<in> set xs. x \<le> m))
   \<or> (\<exists>k < length xs. argmax_from i best m xs = i + k \<and> m < xs ! k
         \<and> (\<forall>j < k. xs ! j < xs ! k) \<and> (\<forall>x \<in> set xs. x \<le> xs ! k))"
proof (induction xs arbitrary: i best m)
  case Nil
  then show ?case by simp
next
  case (Cons x xs)
  show ?case
  proof (cases "m < x")
    case True
    from Cons.IH [of "Suc i" i x] show ?thesis
    proof
      assume "argmax_from (Suc i) i x xs = i \<and> (\<forall>y \<in> set xs. y \<le> x)"
      then have "0 < length (x # xs) \<and> argmax_from i best m (x # xs) = i + 0 \<and> m < (x # xs) ! 0
         \<and> (\<forall>j < 0. (x # xs) ! j < (x # xs) ! 0) \<and> (\<forall>y \<in> set (x # xs). y \<le> (x # xs) ! 0)"
        using True by simp
      then show ?thesis by blast
    next
      assume "\<exists>k < length xs. argmax_from (Suc i) i x xs = Suc i + k \<and> x < xs ! k
         \<and> (\<forall>j < k. xs ! j < xs ! k) \<and> (\<forall>y \<in> set xs. y \<le> xs ! k)"
      then obtain k where k: "k < length xs" "argmax_from (Suc i) i x xs = Suc i + k" "x < xs ! k"
        "\<forall>j < k. xs ! j < xs ! k" "\<forall>y \<in> set xs. y \<le> xs ! k" by blast
      have "Suc k < length (x # xs) \<and> argmax_from i best m (x # xs) = i + Suc k
         \<and> m < (x # xs) ! Suc k
         \<and> (\<forall>j < Suc k. (x # xs) ! j < (x # xs) ! Suc k)
         \<and> (\<forall>y \<in> set (x # xs). y \<le> (x # xs) ! Suc k)"
        using True k by (auto simp: less_Suc_eq_0_disj)
      then show ?thesis by blast
    qed
  next
    case False
    from Cons.IH [of "Suc i" best m] show ?thesis
    proof
      assume "argmax_from (Suc i) best m xs = best \<and> (\<forall>y \<in> set xs. y \<le> m)"
      then show ?thesis using False by simp
    next
      assume "\<exists>k < length xs. argmax_from (Suc i) best m xs = Suc i + k \<and> m < xs ! k
         \<and> (\<forall>j < k. xs ! j < xs ! k) \<and> (\<forall>y \<in> set xs. y \<le> xs ! k)"
      then obtain k where k: "k < length xs" "argmax_from (Suc i) best m xs = Suc i + k" "m < xs ! k"
        "\<forall>j < k. xs ! j < xs ! k" "\<forall>y \<in> set xs. y \<le> xs ! k" by blast
      have "Suc k < length (x # xs) \<and> argmax_from i best m (x # xs) = i + Suc k
         \<and> m < (x # xs) ! Suc k
         \<and> (\<forall>j < Suc k. (x # xs) ! j < (x # xs) ! Suc k)
         \<and> (\<forall>y \<in> set (x # xs). y \<le> (x # xs) ! Suc k)"
        using False k by (auto simp: less_Suc_eq_0_disj)
      then show ?thesis by blast
    qed
  qed
qed

lemma argmax_first_max:
  assumes "xs \<noteq> []"
  shows "\<exists>r < length xs. argmax xs = Inr r \<and> (\<forall>j < length xs. xs ! j \<le> xs ! r)
           \<and> (\<forall>j < r. xs ! j < xs ! r)"
proof -
  obtain x rest where xs: "xs = x # rest" using assms by (cases xs) simp_all
  have am: "argmax xs = Inr (argmax_from 1 0 x rest)" by (simp add: xs argmax_def)
  from argmax_from_first_max [of 1 0 x rest] show ?thesis
  proof
    assume a: "argmax_from 1 0 x rest = 0 \<and> (\<forall>y \<in> set rest. y \<le> x)"
    then have "\<forall>j < length xs. xs ! j \<le> xs ! 0"
      by (auto simp: xs nth_Cons')
    then show ?thesis using a am by (auto simp: xs)
  next
    assume "\<exists>k < length rest. argmax_from 1 0 x rest = 1 + k \<and> x < rest ! k
         \<and> (\<forall>j < k. rest ! j < rest ! k) \<and> (\<forall>y \<in> set rest. y \<le> rest ! k)"
    then obtain k where k: "k < length rest" "argmax_from 1 0 x rest = Suc k" "x < rest ! k"
        "\<forall>j < k. rest ! j < rest ! k" "\<forall>y \<in> set rest. y \<le> rest ! k" by auto
    have 1: "Suc k < length xs" using k(1) by (simp add: xs)
    have 2: "\<forall>j < length xs. xs ! j \<le> xs ! Suc k"
      using k(3,5) by (auto simp: xs nth_Cons')
    have 3: "\<forall>j < Suc k. xs ! j < xs ! Suc k"
      using k(3,4) by (auto simp: xs less_Suc_eq_0_disj)
    show ?thesis using 1 2 3 am k(2) by auto
  qed
qed

text \<open>
  C5, as the code has it. When the split of the best chunk gives exactly one sentence,
  that sentence is the chunk itself; the reranking is skipped (the encoder and the
  similarity are not consulted), and the extraction of an author is still applied to it:
  the answer is \<open>extract_author question best_chunk\<close>. The chunk is returned unmodified
  when the question has no trigger phrase, and when the pattern finds no match in it.
\<close>

theorem single_sentence_refinement:
  assumes "length (re_split best_chunk) = 1"
  shows "re_split best_chunk = [best_chunk]
       \<and> best_sentence_of env question best_chunk = Inr best_chunk
       \<and> refine env question best_chunk = Inr (extract_author question best_chunk)
       \<and> (\<not> asks_author question \<longrightarrow> refine env question best_chunk = Inr best_chunk)
       \<and> (re_search best_chunk = None \<longrightarrow> refine env question best_chunk = Inr best_chunk)"
proof -
  have b: "best_sentence_of env question best_chunk = Inr best_chunk"
    using assms by (simp add: best_sentence_of_def)
  then have r: "refine env question best_chunk = Inr (extract_author question best_chunk)"
    by (simp add: refine_def)
  show ?thesis
    using re_split_single [OF assms] b r by (simp add: extract_author_def)
qed

theorem single_sentence_refinement_witness:
  "length (re_split ''Auteur: Jane Doe'') = 1
   \<and> refine toy ''Rapport ?'' ''Auteur: Jane Doe'' = Inr ''Auteur: Jane Doe''"
proof -
  have h: "length (re_split ''Auteur: Jane Doe'') = 1" by code_simp
  have a: "\<not> asks_author ''Rapport ?''" by code_simp
  from single_sentence_refinement [OF h, of toy "''Rapport ?''"] a
  have "refine toy ''Rapport ?'' ''Auteur: Jane Doe'' = Inr ''Auteur: Jane Doe''" by blast
  with h show ?thesis by (rule conjI)
qed

text \<open>
  C5, as stated, fails: the chunk "Auteur: Jane Doe" is one sentence, and for a question
  with the trigger phrase "auteur" the answer is the extracted name "Jane Doe", not the
  sentence.
\<close>

theorem single_sentence_counterexample:
  "length (re_split ''Auteur: Jane Doe'') = 1
   \<and> refine toy ''Quel est le nom de son auteur ?'' ''Auteur: Jane Doe'' = Inr ''Jane Doe''
   \<and> refine toy ''Quel est le nom de son auteur ?'' ''Auteur: Jane Doe''
       \<noteq> Inr ''Auteur: Jane Doe''"
proof -
  have 1: "length (re_split ''Auteur: Jane Doe'') = 1" by code_simp
  have 2: "refine toy ''Quel est le nom de son auteur ?'' ''Auteur: Jane Doe'' = Inr ''Jane Doe''"
    by code_simp
  have 3: "refine toy ''Quel est le nom de son auteur ?'' ''Auteur: Jane Doe''
       \<noteq> Inr ''Auteur: Jane Doe''"
    unfolding 2 by simp
  from 1 2 3 show ?thesis by simp
qed

text \<open>
  C6. When the split of the best chunk gives two sentences or more, and the encoder
  returns one vector for each text it is given, the sentence selected is one whose
  similarity to the question is the largest, and every earlier sentence has a strictly
  smaller similarity: among the sentences of the largest similarity it is the first. The
  answer is the extraction of an author applied to that sentence.
\<close>

theorem rerank_selects_first_maximum:
  assumes "2 \<le> length (re_split best_chunk)"
    and "length (encode env (re_split best_chunk)) = length (re_split best_chunk)"
    and "length (encode env [question]) = 1"
  shows "\<exists>i < length (re_split best_chunk).
           best_sentence_of env question best_chunk = Inr (re_split best_chunk ! i)
         \<and> refine env question best_chunk
             = Inr (extract_author question (re_split best_chunk ! i))
         \<and> (\<forall>j < length (re_split best_chunk).
               cos_sim env (hd (encode env [question])) (encode env (re_split best_chunk) ! j)
               \<le> cos_sim env (hd (encode env [question])) (encode env (re_split best_chunk) ! i))
         \<and> (\<forall>j < i.
               cos_sim env (hd (encode env [question])) (encode env (re_split best_chunk) ! j)
               < cos_sim env (hd (encode env [question])) (encode env (re_split best_chunk) ! i))"
proof -
  define sentences where "sentences = re_split best_chunk"
  define sent_embs where "sent_embs = encode env sentences"
  define qv where "qv = hd (encode env [question])"
  define sims where "sims = map (\<lambda>s_emb. cos_sim env qv s_emb) sent_embs"
  have len: "length sims = length sentences" "length sent_embs = length sentences"
    using assms(2) by (simp_all add: sims_def sent_embs_def sentences_def)
  have q: "py_index (encode env [question]) 0 = Inr qv"
    using assms(3) by (cases "encode env [question]") (simp_all add: py_index_def qv_def)
  have "sims \<noteq> []" using len assms(1) by (auto simp: sentences_def)
  then obtain r where r: "r < length sims" "argmax sims = Inr r"
    "\<forall>j < length sims. sims ! j \<le> sims ! r" "\<forall>j < r. sims ! j < sims ! r"
    using argmax_first_max [of sims] by blast
  have b: "best_sentence_of env question best_chunk = Inr (sentences ! r)"
    using assms(1) q r(1,2) len py_index_nat [of r sentences]
    by (simp add: best_sentence_of_def Let_def sentences_def [symmetric]
        sent_embs_def [symmetric] sims_def [symmetric])
  then have f: "refine env question best_chunk = Inr (extract_author question (sentences ! r))"
    by (simp add: refine_def)
  have s: "\<And>j. j < length sentences \<Longrightarrow> sims ! j = cos_sim env qv (sent_embs ! j)"
    using len by (simp add: sims_def)
  have m: "\<forall>j < length sentences. cos_sim env qv (sent_embs ! j) \<le> cos_sim env qv (sent_embs ! r)"
    using r(1,3) s len by simp
  have e: "\<forall>j < r. cos_sim env qv (sent_embs ! j) < cos_sim env qv (sent_embs ! r)"
    using r(1,4) s len by simp
  have "r < length sentences" using r(1) len by simp
  then show ?thesis
    using b f m e unfolding sentences_def sent_embs_def qv_def by blast
qed

theorem rerank_selects_first_maximum_witness:
  "2 \<le> length (re_split ''Rapport annuel. Auteur: Jane Doe'')
   \<and> length (encode toy (re_split ''Rapport annuel. Auteur: Jane Doe''))
       = length (re_split ''Rapport annuel. Auteur: Jane Doe'')
   \<and> length (encode toy [''Rapport annuel ?'']) = 1
   \<and> (\<exists>i < length (re_split ''Rapport annuel. Auteur: Jane Doe'').
         best_sentence_of toy ''Rapport annuel ?'' ''Rapport annuel. Auteur: Jane Doe''
           = Inr (re_split ''Rapport annuel. Auteur: Jane Doe'' ! i))"
proof -
  have h1: "2 \<le> length (re_split ''Rapport annuel. Auteur: Jane Doe'')" by code_simp
  have h2: "length (encode toy (re_split ''Rapport annuel. Auteur: Jane Doe''))
       = length (re_split ''Rapport annuel. Auteur: Jane Doe'')"
    by code_simp
  have h3: "length (encode toy [''Rapport annuel ?'']) = 1" by code_simp
  from rerank_selects_first_maximum [OF h1 h2 h3]
  have "\<exists>i < length (re_split ''Rapport annuel. Auteur: Jane Doe'').
         best_sentence_of toy ''Rapport annuel ?'' ''Rapport annuel. Auteur: Jane Doe''
           = Inr (re_split ''Rapport annuel. Auteur: Jane Doe'' ! i)"
    by blast
  with h1 h2 h3 show ?thesis by blast
qed

text \<open>
  C7, as the code has it. The trigger phrases and the labels of the pattern are French.
  For the question "Qui a pr\<acute>esent\<acute>e ce document ?" and the selected sentence
  "Pr\<acute>esent\<acute>e par Jane Doe." the extraction triggers and the answer is exactly
  "Jane Doe", without the full stop. The question "Who presented this?" has no trigger
  phrase.
\<close>

theorem presented_by_extraction:
  "extract_author (''Qui a pr'' @ [e_acute] @ ''sent'' @ [e_acute] @ '' ce document ?'')
     (''Pr'' @ [e_acute] @ ''sent'' @ [e_acute] @ '' par Jane Doe.'') = ''Jane Doe''
   \<and> refine toy (''Qui a pr'' @ [e_acute] @ ''sent'' @ [e_acute] @ '' ce document ?'')
       (''Pr'' @ [e_acute] @ ''sent'' @ [e_acute] @ '' par Jane Doe.'') = Inr ''Jane Doe''
   \<and> \<not> asks_author ''Who presented this?''"
proof -
  have 1: "extract_author (''Qui a pr'' @ [e_acute] @ ''sent'' @ [e_acute] @ '' ce document ?'')
     (''Pr'' @ [e_acute] @ ''sent'' @ [e_acute] @ '' par Jane Doe.'') = ''Jane Doe''"
    by code_simp
  have 2: "refine toy (''Qui a pr'' @ [e_acute] @ ''sent'' @ [e_acute] @ '' ce document ?'')
       (''Pr'' @ [e_acute] @ ''sent'' @ [e_acute] @ '' par Jane Doe.'') = Inr ''Jane Doe''"
    by code_simp
  have 3: "\<not> asks_author ''Who presented this?''" by code_simp
  from 1 2 3 show ?thesis by (simp only: simp_thms)
qed

text \<open>
  C7, as stated, fails: for the question "Who presented this?" and the selected sentence
  "Presented by Jane Doe." the answer is the sentence itself, full stop included, and
  not "Jane Doe".
\<close>

theorem presented_by_english_counterexample:
  "extract_author ''Who presented this?'' ''Presented by Jane Doe.'' = ''Presented by Jane Doe.''
   \<and> extract_author ''Who presented this?'' ''Presented by Jane Doe.'' \<noteq> ''Jane Doe''
   \<and> refine toy ''Who presented this?'' ''Presented by Jane Doe.''
       = Inr ''Presented by Jane Doe.''"
proof -
  have 1: "extract_author ''Who presented this?'' ''Presented by Jane Doe.''
             = ''Presented by Jane Doe.''"
    by code_simp
  have 2: "extract_author ''Who presented this?'' ''Presented by Jane Doe.'' \<noteq> ''Jane Doe''"
    unfolding 1 by simp
  have 3: "refine toy ''Who presented this?'' ''Presented by Jane Doe.''
       = Inr ''Presented by Jane Doe.''"
    by code_simp
  from 1 2 3 show ?thesis by (simp only: simp_thms)
qed

section \<open>A document without words\<close>

text \<open>
  C9. The file \<open>empty.pdf\<close> has two pages, one of two blanks and one without text: its
  text has no word and \<open>chunk_text\<close> returns no chunk. The ingestion does not complete:
  \<open>index_pdf\<close> raises IndexError when it reads the second dimension of the embeddings, and
  stores no entry for the session, so that a later query finds no session.
\<close>

theorem empty_document_ingestion_raises:
  "extract_pdf_text toy ''empty.pdf'' = Inr ''  ''
   \<and> chunk_text ''  '' 128 = Inr []
   \<and> fst (index_pdf toy ''empty.pdf'' ''s'' Map.empty) = Inl IndexError
   \<and> snd (index_pdf toy ''empty.pdf'' ''s'' Map.empty) ''s'' = None
   \<and> fst (rag_query toy ''Qui ?'' ''s'' (snd (index_pdf toy ''empty.pdf'' ''s'' Map.empty)))
       = Inr (''Aucun PDF index'' @ [e_acute] @ '' pour cette session.'')"
proof -
  have 1: "extract_pdf_text toy ''empty.pdf'' = Inr ''  ''" by code_simp
  have 2: "chunk_text ''  '' 128 = Inr []" by code_simp
  have 3: "fst (index_pdf toy ''empty.pdf'' ''s'' Map.empty) = Inl IndexError" by code_simp
  have 4: "snd (index_pdf toy ''empty.pdf'' ''s'' Map.empty) ''s'' = None"
    using index_pdf_failure [of toy "''empty.pdf''" "''s''" Map.empty IndexError
        "snd (index_pdf toy ''empty.pdf'' ''s'' Map.empty)"] 3
    by (simp add: prod_eq_iff)
  have 5: "fst (rag_query toy ''Qui ?'' ''s'' (snd (index_pdf toy ''empty.pdf'' ''s'' Map.empty)))
       = Inr (''Aucun PDF index'' @ [e_acute] @ '' pour cette session.'')"
    using 4 by (simp add: rag_query_def)
  from 1 2 3 4 5 show ?thesis by (simp only: simp_thms)
qed

end
